theory Spec2Isabelle
  imports Main "HOL-Library.Sublist"
begin

section \<open>The patch line mapper of server.js\<close>

text \<open>
  Strings are modelled as \<open>string\<close>. The mapper only inspects the characters
  \<open>@\<close>, \<open>+\<close>, \<open>-\<close>, the ASCII digits and the line feed, so nothing depends on how the
  other characters of a patch are encoded.

  JavaScript numbers are modelled as \<open>int\<close>. The two counters are only incremented by
  one and decremented by one, which is exact on doubles below \<open>2^53\<close>; the model is
  exact for patches whose hunk headers carry line numbers below that bound.
\<close>

datatype js_error = TypeError

text \<open>\<^verbatim>\<open>patchString.split('\n')\<close>: the pieces between line feeds; never an empty array.\<close>

fun split_on :: "char \<Rightarrow> string \<Rightarrow> string list" where
  "split_on sep [] = [[]]"
| "split_on sep (c # cs) =
     (let r = split_on sep cs
      in if c = sep then [] # r else (c # hd r) # tl r)"

definition newline :: char where
  "newline = CHR 0x0A"

text \<open>\<^verbatim>\<open>line.match(/^@@.*/)\<close> is truthy exactly when the line starts with two at-signs.\<close>

definition isHunkHeader :: "string \<Rightarrow> bool" where
  "isHunkHeader line = (take 2 line = ''@@'')"

definition is_digit :: "char \<Rightarrow> bool" where
  "is_digit c = (c \<in> set ''0123456789'')"

text \<open>
  \<^verbatim>\<open>line.match(/\+[0-9]+/)\<close>: the leftmost plus sign followed by a digit, with the longest
  run of digits after it. The result is \<^verbatim>\<open>match[0].slice(1)\<close>, the digits without the
  plus sign; \<open>None\<close> is the \<^verbatim>\<open>null\<close> of a failed match.
\<close>

fun matchPlusDigits :: "string \<Rightarrow> string option" where
  "matchPlusDigits [] = None"
| "matchPlusDigits (c # cs) =
     (if c = CHR ''+'' \<and> takeWhile is_digit cs \<noteq> []
      then Some (takeWhile is_digit cs)
      else matchPlusDigits cs)"

definition digit_val :: "char \<Rightarrow> int" where
  "digit_val c = of_char c - 48"

text \<open>The numeric value of a string of decimal digits (the coercion done by the subtraction).\<close>

definition toNumber :: "string \<Rightarrow> int" where
  "toNumber ds = foldl (\<lambda>n c. 10 * n + digit_val c) 0 ds"

text \<open>
  The state of the reduction: the two closure variables and the accumulator object.
  Keys of the object are the decimal renderings of integers, so it is a map on \<open>int\<close>.
\<close>

record line_state =
  diffLineIndex :: int
  fileLineIndex :: int
  lineMap :: "int \<rightharpoonup> int"

text \<open>\<^verbatim>\<open>line[0]\<close>: \<open>None\<close> is \<^verbatim>\<open>undefined\<close>, for the empty line.\<close>

definition firstChar :: "string \<Rightarrow> char option" where
  "firstChar line = (case line of [] \<Rightarrow> None | c # _ \<Rightarrow> Some c)"

text \<open>
  One call of the reducer. A header line without a plus sign followed by a digit makes
  \<^verbatim>\<open>line.match(/\+[0-9]+/)[0]\<close> index \<^verbatim>\<open>null\<close>, which raises a TypeError.
\<close>

definition step :: "line_state \<Rightarrow> string \<Rightarrow> js_error + line_state" where
  "step s line =
     (if isHunkHeader line then
        (case matchPlusDigits line of
           None \<Rightarrow> Inl TypeError
         | Some ds \<Rightarrow> Inr (s\<lparr>fileLineIndex := toNumber ds - 1\<rparr>))
      else
        (let s1 = s\<lparr>diffLineIndex := diffLineIndex s + 1\<rparr>
         in if Some CHR ''-'' \<noteq> firstChar line then
              (let s2 = s1\<lparr>fileLineIndex := fileLineIndex s1 + 1\<rparr>
               in if Some CHR ''+'' = firstChar line
                  then Inr (s2\<lparr>lineMap := (lineMap s2)(fileLineIndex s2 \<mapsto> diffLineIndex s2)\<rparr>)
                  else Inr s2)
            else Inr s1))"

text \<open>\<^verbatim>\<open>reduce\<close> over the lines, left to right; an exception ends it.\<close>

fun reduceLines :: "line_state \<Rightarrow> string list \<Rightarrow> js_error + line_state" where
  "reduceLines s [] = Inr s"
| "reduceLines s (l # ls) =
     (case step s l of Inl e \<Rightarrow> Inl e | Inr s' \<Rightarrow> reduceLines s' ls)"

definition initialState :: line_state where
  "initialState = \<lparr>diffLineIndex = 0, fileLineIndex = 0, lineMap = Map.empty\<rparr>"

text \<open>
  The patch is \<open>None\<close> when the property is absent (\<^verbatim>\<open>undefined\<close>): calling
  \<^verbatim>\<open>split\<close> on it raises a TypeError.
\<close>

definition getLineMapFromPatchString :: "string option \<Rightarrow> js_error + (int \<rightharpoonup> int)" where
  "getLineMapFromPatchString patchString =
     (case patchString of
        None \<Rightarrow> Inl TypeError
      | Some p \<Rightarrow>
          (case reduceLines initialState (split_on newline p) of
             Inl e \<Rightarrow> Inl e
           | Inr s \<Rightarrow> Inr (lineMap s)))"


section \<open>The review pipeline of server.js\<close>

subsection \<open>Data\<close>

record pull_request_ref =
  number :: int

record event_body =
  pull_request :: "pull_request_ref option"

record commit =
  sha :: string

text \<open>A file of a commit; \<open>patch\<close> is \<open>None\<close> when the property is absent.\<close>

record changed_file =
  filename :: string
  patch :: "string option"
  raw_url :: string

text \<open>A linting message; \<open>ruleId\<close> is \<open>None\<close> when it is \<^verbatim>\<open>undefined\<close>.\<close>

record finding =
  ruleId :: "string option"
  message :: string
  line :: int

text \<open>The argument of \<^verbatim>\<open>github.pullRequests.createComment\<close> (the repository identity,
  a constant of the configuration, is left out).\<close>

record comment =
  comment_number :: int
  comment_sha :: string
  comment_path :: string
  comment_commit_id :: string
  comment_body :: string
  comment_position :: int

text \<open>What the process does that can be observed from outside, in order.\<close>

datatype effect =
    ConsoleLog string
  | GetCommits int
  | GetCommit string
  | GetContent string string
  | CreateComment comment
  | ResponseEnd

fun isClientCall :: "effect \<Rightarrow> bool" where
  "isClientCall (GetCommits _) = True"
| "isClientCall (GetCommit _) = True"
| "isClientCall (GetContent _ _) = True"
| "isClientCall (CreateComment _) = True"
| "isClientCall _ = False"

fun isCreateComment :: "effect \<Rightarrow> bool" where
  "isCreateComment (CreateComment _) = True"
| "isCreateComment _ = False"

fun isConsoleLog :: "effect \<Rightarrow> bool" where
  "isConsoleLog (ConsoleLog _) = True"
| "isConsoleLog _ = False"

text \<open>
  The answer of the hosting platform to one request. The client calls the callback
  node-style: \<open>Failure e\<close> is \<^verbatim>\<open>callback(e)\<close>, with the data argument
  \<^verbatim>\<open>undefined\<close>; \<open>Success d\<close> is \<^verbatim>\<open>callback(null, d)\<close>.
\<close>

datatype 'a response = Failure string | Success 'a

text \<open>
  The collaborators the module reaches through globals and imports: the answers of the
  hosting client, the configured file filter (whether \<^verbatim>\<open>filename.match(FILE_FILTER)\<close>
  is truthy), \<^verbatim>\<open>atob\<close>, and the linter (the value of
  \<^verbatim>\<open>_.get(eslint.executeOnText(content, filename), 'results[0].messages')\<close>, \<open>None\<close>
  when it is \<^verbatim>\<open>undefined\<close>).
\<close>

record env =
  getCommitsResponse :: "int \<Rightarrow> commit list response"
  getCommitResponse :: "string \<Rightarrow> changed_file list response"
  getContentResponse :: "string \<Rightarrow> string \<Rightarrow> string response"
  matchesFileFilter :: "string \<Rightarrow> bool"
  atob :: "string \<Rightarrow> string"
  executeOnText :: "string \<Rightarrow> string \<Rightarrow> finding list option"

subsection \<open>The functions\<close>

text \<open>\<^verbatim>\<open>files.filter(({filename}) => filename.match(FILE_FILTER))\<close>\<close>

definition filterJavascriptFiles :: "(string \<Rightarrow> bool) \<Rightarrow> changed_file list \<Rightarrow> changed_file list" where
  "filterJavascriptFiles fileFilter files = filter (\<lambda>f. fileFilter (filename f)) files"

text \<open>
  \<^verbatim>\<open>sendSingleComment\<close>: the lookup \<^verbatim>\<open>lineMap[line]\<close> is \<^verbatim>\<open>undefined\<close> for a missing
  key, which is falsy, and so is the number zero.
\<close>

definition commentBody :: "finding \<Rightarrow> string" where
  "commentBody m =
     ''**'' @ (case ruleId m of None \<Rightarrow> ''Eslint'' | Some r \<Rightarrow> r) @ ''**: '' @ message m"

definition sendSingleComment ::
  "int \<Rightarrow> string \<Rightarrow> (int \<rightharpoonup> int) \<Rightarrow> finding \<Rightarrow> string \<Rightarrow> effect list" where
  "sendSingleComment num fname lmap m commitSha =
     (case lmap (line m) of
        None \<Rightarrow> []
      | Some diffLinePosition \<Rightarrow>
          if diffLinePosition \<noteq> 0 then
            [CreateComment \<lparr>comment_number = num, comment_sha = commitSha,
               comment_path = fname, comment_commit_id = commitSha,
               comment_body = commentBody m, comment_position = diffLinePosition\<rparr>]
          else [])"

text \<open>
  A callback's run: the effects it had, and either the exception it raised or its
  result.
\<close>

type_synonym 'a run = "effect list \<times> (js_error + 'a)"

text \<open>\<^verbatim>\<open>lintContent\<close>: the line map is computed before the linter is called.\<close>

record lint_result =
  lint_number :: int
  lint_filename :: string
  lint_lineMap :: "int \<rightharpoonup> int"
  lint_messages :: "finding list option"
  lint_sha :: string

definition lintContent ::
  "env \<Rightarrow> int \<Rightarrow> string \<Rightarrow> string option \<Rightarrow> string \<Rightarrow> string \<Rightarrow> js_error + lint_result" where
  "lintContent e num fname p content commitSha =
     (case getLineMapFromPatchString p of
        Inl err \<Rightarrow> Inl err
      | Inr lmap \<Rightarrow>
          Inr \<lparr>lint_number = num, lint_filename = fname, lint_lineMap = lmap,
               lint_messages = executeOnText e content fname, lint_sha = commitSha\<rparr>)"

text \<open>\<^verbatim>\<open>sendComments\<close>: \<^verbatim>\<open>messages.map\<close> raises a TypeError when there are no messages.\<close>

definition sendComments :: "lint_result \<Rightarrow> unit run" where
  "sendComments r =
     (case lint_messages r of
        None \<Rightarrow> ([], Inl TypeError)
      | Some ms \<Rightarrow>
          (concat (map (\<lambda>m. sendSingleComment (lint_number r) (lint_filename r)
                         (lint_lineMap r) m (lint_sha r)) ms),
           Inr ()))"

text \<open>
  The requests a callback leaves pending. Each carries what its own callback closes
  over.
\<close>

record content_request =
  cr_number :: int
  cr_file :: changed_file
  cr_sha :: string

text \<open>
  The callback that \<^verbatim>\<open>getCommitsForPullRequest\<close> gives to the client, followed by the
  callback of \<^verbatim>\<open>treatPayload\<close>: the error is logged and the callback is called all
  the same, where \<^verbatim>\<open>commits.map\<close> on \<^verbatim>\<open>undefined\<close> raises a TypeError. Otherwise one
  \<^verbatim>\<open>getCommit\<close> request is issued per commit.
\<close>

definition onCommits :: "commit list response \<Rightarrow> commit list run" where
  "onCommits r =
     (case r of
        Failure err \<Rightarrow> ([ConsoleLog err], Inl TypeError)
      | Success commits \<Rightarrow> (map (\<lambda>c. GetCommit (sha c)) commits, Inr commits))"

text \<open>
  The callback that \<^verbatim>\<open>getFilesFromCommit\<close> gives to the client. Its second parameter is
  the pattern \<^verbatim>\<open>{files}\<close>: binding it to \<^verbatim>\<open>undefined\<close> raises a TypeError before the
  body runs, so a failure is not logged. Otherwise the files are filtered and one
  \<^verbatim>\<open>getContent\<close> request is issued per file kept.
\<close>

definition onCommit :: "env \<Rightarrow> pull_request_ref \<Rightarrow> commit \<Rightarrow> changed_file list response \<Rightarrow> content_request list run" where
  "onCommit e pr c r =
     (case r of
        Failure err \<Rightarrow> ([], Inl TypeError)
      | Success files \<Rightarrow>
          (let kept = filterJavascriptFiles (matchesFileFilter e) files
           in (map (\<lambda>f. GetContent (filename f) (sha c)) kept,
               Inr (map (\<lambda>f. \<lparr>cr_number = number pr, cr_file = f, cr_sha = sha c\<rparr>) kept))))"

text \<open>
  The callback that \<^verbatim>\<open>downloadFile\<close> gives to the client: an error is logged and
  nothing else happens; otherwise the content is decoded, linted and commented.
\<close>

definition onContent :: "env \<Rightarrow> content_request \<Rightarrow> string response \<Rightarrow> unit run" where
  "onContent e q r =
     (case r of
        Failure err \<Rightarrow> ([ConsoleLog err], Inr ())
      | Success content \<Rightarrow>
          (case lintContent e (cr_number q) (filename (cr_file q)) (patch (cr_file q))
                  (atob e content) (cr_sha q) of
             Inl err \<Rightarrow> ([], Inl err)
           | Inr res \<Rightarrow> sendComments res))"

text \<open>
  Callbacks run one after the other. Nothing in the module catches an exception, so
  the first callback that raises one ends the run: the callbacks after it are not run.
\<close>

fun runEach :: "('a \<Rightarrow> 'b list run) \<Rightarrow> 'a list \<Rightarrow> 'b list run" where
  "runEach h [] = ([], Inr [])"
| "runEach h (x # xs) =
     (case h x of
        (es, Inl err) \<Rightarrow> (es, Inl err)
      | (es, Inr ys) \<Rightarrow>
          (case runEach h xs of
             (es', Inl err) \<Rightarrow> (es @ es', Inl err)
           | (es', Inr zs) \<Rightarrow> (es @ es', Inr (ys @ zs))))"

text \<open>
  \<^verbatim>\<open>treatPayload\<close>, with the answers delivered in the order of the requests: the commit
  list, then the file list of every commit, then the content of every file.
\<close>

definition treatPayload :: "env \<Rightarrow> pull_request_ref \<Rightarrow> unit run" where
  "treatPayload e pr =
     (case onCommits (getCommitsResponse e (number pr)) of
        (es1, Inl err) \<Rightarrow> (es1, Inl err)
      | (es1, Inr commits) \<Rightarrow>
          (case runEach (\<lambda>c. onCommit e pr c (getCommitResponse e (sha c))) commits of
             (es2, Inl err) \<Rightarrow> (es1 @ es2, Inl err)
           | (es2, Inr requests) \<Rightarrow>
               (case runEach (\<lambda>q. case onContent e q
                                       (getContentResponse e (filename (cr_file q)) (cr_sha q)) of
                                     (es, Inl err) \<Rightarrow> (es, Inl err)
                                   | (es, Inr u) \<Rightarrow> (es, Inr [u])) requests of
                  (es3, Inl err) \<Rightarrow> (es1 @ es2 @ es3, Inl err)
                | (es3, Inr _) \<Rightarrow> (es1 @ es2 @ es3, Inr ()))))"

text \<open>
  The handler of \<^verbatim>\<open>app.post('/')\<close>. The body is \<open>None\<close> when the request has none. The
  request for the commits is issued and the response is ended before any answer of the
  client arrives.
\<close>

record outcome =
  trace :: "effect list"
  uncaught :: "js_error option"

definition handlePost :: "env \<Rightarrow> event_body option \<Rightarrow> outcome" where
  "handlePost e body =
     (case (case body of None \<Rightarrow> None | Some payload \<Rightarrow> pull_request payload) of
        None \<Rightarrow> \<lparr>trace = [ResponseEnd], uncaught = None\<rparr>
      | Some pr \<Rightarrow>
          (case treatPayload e pr of
             (es, Inl err) \<Rightarrow>
               \<lparr>trace = [GetCommits (number pr), ResponseEnd] @ es, uncaught = Some err\<rparr>
           | (es, Inr _) \<Rightarrow>
               \<lparr>trace = [GetCommits (number pr), ResponseEnd] @ es, uncaught = None\<rparr>))"

section \<open>Vocabulary of the properties\<close>

text \<open>The kinds of patch lines, as the branches of the reducer tell them apart.\<close>

definition isAddition :: "string \<Rightarrow> bool" where
  "isAddition l = (\<not> isHunkHeader l \<and> firstChar l = Some CHR ''+'')"

definition isDeletion :: "string \<Rightarrow> bool" where
  "isDeletion l = (\<not> isHunkHeader l \<and> firstChar l = Some CHR ''-'')"

text \<open>
  The hunk header as the specification writes it,
  \<^verbatim>\<open>@@ -<oldStart>,<oldCount> +<newStart>,<newCount> @@\<close>, with the numbers in decimal.
  These three definitions follow the specification, not the code.
\<close>

definition spec_digitChar :: "nat \<Rightarrow> char" where
  "spec_digitChar d = ''0123456789'' ! d"

fun spec_decimal :: "nat \<Rightarrow> string" where
  "spec_decimal n =
     (if n < 10 then [spec_digitChar n]
      else spec_decimal (n div 10) @ [spec_digitChar (n mod 10)])"

definition spec_hunkHeader :: "nat \<Rightarrow> nat \<Rightarrow> nat \<Rightarrow> nat \<Rightarrow> string" where
  "spec_hunkHeader oldStart oldCount newStart newCount =
     ''@@ -'' @ spec_decimal oldStart @ '','' @ spec_decimal oldCount @
     '' +'' @ spec_decimal newStart @ '','' @ spec_decimal newCount @ '' @@''"

text \<open>
  The line numbers, in the file after the change, of the addition lines of a patch, in
  the order of the patch. This definition follows the specification, not the code: a
  hunk header gives the number of the next line of the new file; an addition and a
  context line (prefixed with a space, or blank) are lines of the new file, a deletion
  is not. Any other line, such as the marker \<^verbatim>\<open>\ No newline at end of file\<close>, is a
  line of neither file. Before the first header the next line is line 1.
\<close>

fun spec_additionLineNumbers :: "int \<Rightarrow> string list \<Rightarrow> int list" where
  "spec_additionLineNumbers next [] = []"
| "spec_additionLineNumbers next (l # ls) =
     (if isHunkHeader l then
        (case matchPlusDigits l of
           None \<Rightarrow> spec_additionLineNumbers next ls
         | Some ds \<Rightarrow> spec_additionLineNumbers (toNumber ds) ls)
      else if firstChar l = Some CHR ''+'' then next # spec_additionLineNumbers (next + 1) ls
      else if firstChar l = Some CHR '' '' \<or> firstChar l = None
        then spec_additionLineNumbers (next + 1) ls
      else spec_additionLineNumbers next ls)"

text \<open>The lines of the format the specification describes: headers, additions,
  deletions and context lines.\<close>

definition spec_formatLine :: "string \<Rightarrow> bool" where
  "spec_formatLine l =
     (isHunkHeader l \<or> firstChar l \<in> {None, Some CHR ''+'', Some CHR ''-'', Some CHR '' ''})"

subsection \<open>Example inputs\<close>

definition scenarioA :: string where
  "scenarioA =
     ''@@ -1,2 +1,3 @@'' @ [newline] @ '' a'' @ [newline] @ ''+b'' @ [newline] @
     '' c'' @ [newline]"

definition scenarioB :: string where
  "scenarioB =
     ''@@ -1,1 +1,1 @@'' @ [newline] @ ''-old'' @ [newline] @ ''+new'' @ [newline]"

definition twoHunkPatch :: string where
  "twoHunkPatch =
     ''@@ -1,2 +1,3 @@'' @ [newline] @ '' a'' @ [newline] @ ''+b'' @ [newline] @
     '' c'' @ [newline] @ ''@@ -10,1 +11,2 @@'' @ [newline] @ '' x'' @ [newline] @ ''+y''"

definition twoAdditionsPatch :: string where
  "twoAdditionsPatch =
     ''@@ -1,1 +1,3 @@'' @ [newline] @ '' a'' @ [newline] @ ''+b'' @ [newline] @ ''+c''"

text \<open>
  A patch as the hosting platform sends it when the old file did not end in a line feed:
  the one line \<open>a\<close> is replaced by the two lines \<open>b\<close> and \<open>c\<close>.
\<close>

definition markerPatch :: string where
  "markerPatch =
     ''@@ -1,1 +1,2 @@'' @ [newline] @ ''-a'' @ [newline] @
     [CHR 0x5C] @ '' No newline at end of file'' @ [newline] @ ''+b'' @ [newline] @ ''+c''"

text \<open>A file whose patch is the one of scenario B, and a linter that reports its line 1.\<close>

definition exampleFile :: changed_file where
  "exampleFile = \<lparr>filename = ''a.js'', patch = Some scenarioB, raw_url = ''u''\<rparr>"

definition otherFile :: changed_file where
  "otherFile = \<lparr>filename = ''README.md'', patch = Some scenarioA, raw_url = ''v''\<rparr>"

definition exampleFinding :: finding where
  "exampleFinding = \<lparr>ruleId = None, message = ''bad'', line = 1\<rparr>"

definition exampleEvent :: event_body where
  "exampleEvent = \<lparr>pull_request = Some \<lparr>number = 7\<rparr>\<rparr>"

text \<open>A pull request of two commits, each touching the example file; every request succeeds.\<close>

definition exampleEnv :: env where
  "exampleEnv =
     \<lparr>getCommitsResponse = (\<lambda>n. Success [\<lparr>sha = ''c1''\<rparr>, \<lparr>sha = ''c2''\<rparr>]),
      getCommitResponse = (\<lambda>s. Success [exampleFile]),
      getContentResponse = (\<lambda>p r. Success ''x''),
      matchesFileFilter = (\<lambda>n. True),
      atob = (\<lambda>c. c),
      executeOnText = (\<lambda>c f. Some [exampleFinding])\<rparr>"

text \<open>The same, with the listing of the commits failing.\<close>

definition commitsFailEnv :: env where
  "commitsFailEnv = exampleEnv\<lparr>getCommitsResponse := (\<lambda>n. Failure ''down'')\<rparr>"

text \<open>The same, with the listing of the files failing for the commit \<open>c1\<close> only.\<close>

definition filesFailEnv :: env where
  "filesFailEnv =
     exampleEnv\<lparr>getCommitResponse :=
       (\<lambda>s. if s = ''c1'' then Failure ''boom'' else Success [exampleFile])\<rparr>"

text \<open>A file filter that keeps the names ending in \<open>.js\<close>.\<close>

definition endsWithJs :: "string \<Rightarrow> bool" where
  "endsWithJs name = (drop (length name - 3) name = ''.js'')"


section \<open>Properties of the patch line mapper\<close>

subsection \<open>Hunk headers\<close>

declare spec_decimal.simps [simp del]

lemma digitChar_cases:
  assumes "d < 10"
  shows "is_digit (spec_digitChar d) \<and> digit_val (spec_digitChar d) = int d"
proof -
  from assms have "d \<in> {0,1,2,3,4,5,6,7,8,9}" by auto
  then show ?thesis
    by (auto simp: is_digit_def digit_val_def spec_digitChar_def)
qed

lemma decimal_digits: "\<forall>c \<in> set (spec_decimal n). is_digit c"
proof (induction n rule: spec_decimal.induct)
  case (1 n)
  show ?case
  proof (cases "n < 10")
    case True
    then show ?thesis by (simp add: spec_decimal.simps [of n] digitChar_cases)
  next
    case False
    with 1 show ?thesis by (simp add: spec_decimal.simps [of n] digitChar_cases)
  qed
qed

lemma decimal_nonempty: "spec_decimal n \<noteq> []"
  by (simp add: spec_decimal.simps [of n])

lemma toNumber_snoc: "toNumber (ds @ [c]) = 10 * toNumber ds + digit_val c"
  by (simp add: toNumber_def)

lemma toNumber_decimal: "toNumber (spec_decimal n) = int n"
proof (induction n rule: spec_decimal.induct)
  case (1 n)
  show ?case
  proof (cases "n < 10")
    case True
    then show ?thesis
      by (simp add: spec_decimal.simps [of n] toNumber_def digitChar_cases)
  next
    case False
    then have "toNumber (spec_decimal n) = 10 * int (n div 10) + int (n mod 10)"
      using 1 by (simp add: spec_decimal.simps [of n] toNumber_snoc digitChar_cases)
    also have "\<dots> = int n" by presburger
    finally show ?thesis .
  qed
qed

lemma plus_not_digit: "\<not> is_digit CHR ''+''"
  by (simp add: is_digit_def)

lemma takeWhile_digits:
  assumes "\<forall>c \<in> set ds. is_digit c" and "rest = [] \<or> \<not> is_digit (hd rest)"
  shows "takeWhile is_digit (ds @ rest) = ds"
  using assms by (cases rest) (auto simp: takeWhile_append2)

lemma matchPlusDigits_skip:
  assumes "CHR ''+'' \<notin> set pre"
  shows "matchPlusDigits (pre @ cs) = matchPlusDigits cs"
  using assms by (induction pre) auto

lemma matchPlusDigits_found:
  assumes "CHR ''+'' \<notin> set pre" and "ds \<noteq> []" and "\<forall>c \<in> set ds. is_digit c"
    and "rest = [] \<or> \<not> is_digit (hd rest)"
  shows "matchPlusDigits (pre @ CHR ''+'' # ds @ rest) = Some ds"
proof -
  have "takeWhile is_digit (ds @ rest) = ds"
    using assms(3,4) by (rule takeWhile_digits)
  with assms(1,2) show ?thesis
    by (simp add: matchPlusDigits_skip)
qed

lemma decimal_no_plus: "CHR ''+'' \<notin> set (spec_decimal n)"
  using decimal_digits [of n] plus_not_digit by blast

lemma header_is_header: "isHunkHeader (spec_hunkHeader a b c d @ rest)"
  by (simp add: isHunkHeader_def spec_hunkHeader_def)

lemma header_match: "matchPlusDigits (spec_hunkHeader a b c d @ rest) = Some (spec_decimal c)"
proof -
  let ?pre = "''@@ -'' @ spec_decimal a @ '','' @ spec_decimal b @ '' ''"
  let ?rest = "'','' @ spec_decimal d @ '' @@'' @ rest"
  have eq: "spec_hunkHeader a b c d @ rest = ?pre @ CHR ''+'' # spec_decimal c @ ?rest"
    by (simp add: spec_hunkHeader_def)
  have "CHR ''+'' \<notin> set ?pre"
    using decimal_no_plus by simp
  moreover have "?rest = [] \<or> \<not> is_digit (hd ?rest)"
    by (simp add: is_digit_def)
  ultimately show ?thesis
    unfolding eq
    by (intro matchPlusDigits_found decimal_nonempty decimal_digits)
qed

lemma step_header:
  "step s (spec_hunkHeader a b c d @ rest) = Inr (s\<lparr>fileLineIndex := int c - 1\<rparr>)"
  by (simp add: step_def header_is_header header_match toNumber_decimal)


subsection \<open>The reducer\<close>

lemma reduceLines_append:
  "reduceLines s (xs @ ys) =
     (case reduceLines s xs of Inl e \<Rightarrow> Inl e | Inr s' \<Rightarrow> reduceLines s' ys)"
  by (induction xs arbitrary: s) (auto split: sum.splits)

lemma reduceLines_snoc:
  "reduceLines s (xs @ [x]) =
     (case reduceLines s xs of Inl e \<Rightarrow> Inl e | Inr s' \<Rightarrow> step s' x)"
  by (simp add: reduceLines_append split: sum.splits)

lemma step_on_header:
  assumes "isHunkHeader l"
  shows "step s l =
     (case matchPlusDigits l of
        None \<Rightarrow> Inl TypeError
      | Some ds \<Rightarrow> Inr (s\<lparr>fileLineIndex := toNumber ds - 1\<rparr>))"
  using assms by (simp add: step_def)

lemma step_on_addition:
  assumes "isAddition l"
  shows "step s l =
     Inr (s\<lparr>diffLineIndex := diffLineIndex s + 1, fileLineIndex := fileLineIndex s + 1,
            lineMap := (lineMap s)(fileLineIndex s + 1 \<mapsto> diffLineIndex s + 1)\<rparr>)"
  using assms by (simp add: step_def isAddition_def Let_def)

lemma step_on_deletion:
  assumes "isDeletion l"
  shows "step s l = Inr (s\<lparr>diffLineIndex := diffLineIndex s + 1\<rparr>)"
  using assms by (simp add: step_def isDeletion_def Let_def)

lemma step_on_context:
  assumes "\<not> isHunkHeader l" and "\<not> isAddition l" and "\<not> isDeletion l"
  shows "step s l =
     Inr (s\<lparr>diffLineIndex := diffLineIndex s + 1, fileLineIndex := fileLineIndex s + 1\<rparr>)"
  using assms by (auto simp: step_def isAddition_def isDeletion_def Let_def)

lemma step_diffLineIndex:
  assumes "step s l = Inr s'"
  shows "diffLineIndex s' = diffLineIndex s + (if isHunkHeader l then 0 else 1)"
  using assms by (auto simp: step_def Let_def split: option.splits if_splits)

lemma reduceLines_diffLineIndex:
  assumes "reduceLines s ls = Inr s'"
  shows "diffLineIndex s' = diffLineIndex s + int (length (filter (\<lambda>l. \<not> isHunkHeader l) ls))"
  using assms
proof (induction ls arbitrary: s)
  case Nil
  then show ?case by simp
next
  case (Cons l ls)
  then obtain s1 where s1: "step s l = Inr s1" and rest: "reduceLines s1 ls = Inr s'"
    by (auto split: sum.splits)
  from Cons.IH [OF rest] step_diffLineIndex [OF s1] show ?case by simp
qed

lemma step_lineMap_other:
  assumes "step s l = Inr s'" and "\<not> isAddition l"
  shows "lineMap s' = lineMap s"
  using assms by (auto simp: step_def isAddition_def Let_def split: option.splits if_splits)

subsection \<open>Recorded values grow with the position counter\<close>

lemma step_values:
  assumes "step s l = Inr s'" and "0 \<le> diffLineIndex s"
    and "\<forall>k v. lineMap s k = Some v \<longrightarrow> 1 \<le> v \<and> v \<le> diffLineIndex s"
  shows "0 \<le> diffLineIndex s' \<and> (\<forall>k v. lineMap s' k = Some v \<longrightarrow> 1 \<le> v \<and> v \<le> diffLineIndex s')"
proof (cases "isAddition l")
  case True
  with assms show ?thesis
    by (fastforce simp: step_on_addition split: if_splits)
next
  case False
  from step_lineMap_other [OF assms(1) False] step_diffLineIndex [OF assms(1)] assms(2,3)
  show ?thesis by (fastforce split: if_splits)
qed

lemma reduceLines_values:
  assumes "reduceLines s ls = Inr s'" and "0 \<le> diffLineIndex s"
    and "\<forall>k v. lineMap s k = Some v \<longrightarrow> 1 \<le> v \<and> v \<le> diffLineIndex s"
  shows "0 \<le> diffLineIndex s' \<and> (\<forall>k v. lineMap s' k = Some v \<longrightarrow> 1 \<le> v \<and> v \<le> diffLineIndex s')"
  using assms
proof (induction ls arbitrary: s)
  case Nil
  then show ?case by simp
next
  case (Cons l ls)
  then obtain s1 where s1: "step s l = Inr s1" and rest: "reduceLines s1 ls = Inr s'"
    by (auto split: sum.splits)
  from step_values [OF s1 Cons.prems(2,3)] Cons.IH [OF rest] show ?case by blast
qed

lemma getLineMap_values:
  assumes "getLineMapFromPatchString p = Inr m" and "m k = Some v"
  shows "1 \<le> v"
proof -
  from assms(1) obtain ps s where "reduceLines initialState (split_on newline ps) = Inr s"
    and m: "m = lineMap s"
    by (auto simp: getLineMapFromPatchString_def split: option.splits sum.splits)
  from reduceLines_values [OF this(1)] have "\<forall>k v. lineMap s k = Some v \<longrightarrow> 1 \<le> v \<and> v \<le> diffLineIndex s"
    by (simp add: initialState_def)
  with m assms(2) show ?thesis by blast
qed

lemma step_inj:
  assumes "step s l = Inr s'"
    and "\<forall>k v. lineMap s k = Some v \<longrightarrow> v \<le> diffLineIndex s"
    and "\<forall>a b v. lineMap s a = Some v \<and> lineMap s b = Some v \<longrightarrow> a = b"
  shows "\<forall>a b v. lineMap s' a = Some v \<and> lineMap s' b = Some v \<longrightarrow> a = b"
proof (cases "isAddition l")
  case True
  with assms(1) have s': "lineMap s' = (lineMap s)(fileLineIndex s + 1 \<mapsto> diffLineIndex s + 1)"
    by (auto simp: step_on_addition)
  show ?thesis
  proof (intro allI impI)
    fix a b v
    assume h: "lineMap s' a = Some v \<and> lineMap s' b = Some v"
    show "a = b"
    proof (cases "a = fileLineIndex s + 1"; cases "b = fileLineIndex s + 1")
      assume "a = fileLineIndex s + 1" "b = fileLineIndex s + 1"
      then show ?thesis by simp
    next
      assume ab: "a = fileLineIndex s + 1" "b \<noteq> fileLineIndex s + 1"
      with h s' have "v = diffLineIndex s + 1" "lineMap s b = Some v" by auto
      with assms(2) show ?thesis by fastforce
    next
      assume ab: "a \<noteq> fileLineIndex s + 1" "b = fileLineIndex s + 1"
      with h s' have "v = diffLineIndex s + 1" "lineMap s a = Some v" by auto
      with assms(2) show ?thesis by fastforce
    next
      assume ab: "a \<noteq> fileLineIndex s + 1" "b \<noteq> fileLineIndex s + 1"
      with h s' have "lineMap s a = Some v \<and> lineMap s b = Some v" by auto
      with assms(3) show ?thesis by blast
    qed
  qed
next
  case False
  from step_lineMap_other [OF assms(1) False] assms(3) show ?thesis by simp
qed

lemma reduceLines_inj:
  assumes "reduceLines s ls = Inr s'" and "0 \<le> diffLineIndex s"
    and "\<forall>k v. lineMap s k = Some v \<longrightarrow> 1 \<le> v \<and> v \<le> diffLineIndex s"
    and "\<forall>a b v. lineMap s a = Some v \<and> lineMap s b = Some v \<longrightarrow> a = b"
  shows "\<forall>a b v. lineMap s' a = Some v \<and> lineMap s' b = Some v \<longrightarrow> a = b"
  using assms
proof (induction ls arbitrary: s)
  case Nil
  then show ?case by simp
next
  case (Cons l ls)
  then obtain s1 where s1: "step s l = Inr s1" and rest: "reduceLines s1 ls = Inr s'"
    by (auto split: sum.splits)
  have b: "\<forall>k v. lineMap s k = Some v \<longrightarrow> v \<le> diffLineIndex s"
    using Cons.prems(3) by blast
  from step_values [OF s1 Cons.prems(2,3)] step_inj [OF s1 b Cons.prems(4)]
  show ?case
    using Cons.IH [OF rest] by blast
qed

lemma getLineMap_inj:
  assumes "getLineMapFromPatchString p = Inr m"
  shows "inj_on m (dom m)"
proof -
  from assms(1) obtain ps s where r: "reduceLines initialState (split_on newline ps) = Inr s"
    and m: "m = lineMap s"
    by (auto simp: getLineMapFromPatchString_def split: option.splits sum.splits)
  have "\<forall>a b v. lineMap s a = Some v \<and> lineMap s b = Some v \<longrightarrow> a = b"
    by (rule reduceLines_inj [OF r]) (simp_all add: initialState_def)
  with m show ?thesis
    by (auto simp: inj_on_def dom_def)
qed

subsection \<open>Where a key comes from\<close>

lemma reduceLines_key_origin:
  assumes "reduceLines s0 ls = Inr s" and "lineMap s k = Some v"
  shows "lineMap s0 k = Some v \<or>
    (\<exists>i < length ls. isAddition (ls ! i) \<and>
       (\<exists>t. reduceLines s0 (take (Suc i) ls) = Inr t \<and> fileLineIndex t = k \<and> diffLineIndex t = v))"
  using assms
proof (induction ls arbitrary: s rule: rev_induct)
  case Nil
  then show ?case by simp
next
  case (snoc x xs)
  from snoc.prems(1) obtain s1 where s1: "reduceLines s0 xs = Inr s1" and st: "step s1 x = Inr s"
    by (auto simp: reduceLines_snoc split: sum.splits)
  show ?case
  proof (cases "isAddition x \<and> k = fileLineIndex s1 + 1")
    case True
    with st snoc.prems(2) have "fileLineIndex s = k" "diffLineIndex s = v"
      by (auto simp: step_on_addition)
    moreover have "reduceLines s0 (take (Suc (length xs)) (xs @ [x])) = Inr s"
      using snoc.prems(1) by simp
    ultimately show ?thesis
      using True by (intro disjI2 exI [of _ "length xs"]) simp
  next
    case False
    with st snoc.prems(2) have "lineMap s1 k = Some v"
      by (cases "isAddition x") (auto simp: step_on_addition step_lineMap_other)
    from snoc.IH [OF s1 this] show ?thesis
    proof
      assume "lineMap s0 k = Some v"
      then show ?thesis by simp
    next
      assume "\<exists>i<length xs. isAddition (xs ! i) \<and>
        (\<exists>t. reduceLines s0 (take (Suc i) xs) = Inr t \<and> fileLineIndex t = k \<and> diffLineIndex t = v)"
      then obtain i t where i: "i < length xs" "isAddition (xs ! i)"
        "reduceLines s0 (take (Suc i) xs) = Inr t" "fileLineIndex t = k" "diffLineIndex t = v"
        by blast
      then have "i < length (xs @ [x])" "isAddition ((xs @ [x]) ! i)"
        "reduceLines s0 (take (Suc i) (xs @ [x])) = Inr t"
        by (simp_all add: nth_append)
      with i(4,5) show ?thesis by blast
    qed
  qed
qed

subsection \<open>The file line counter inside a hunk\<close>

lemma step_file_nonheader:
  assumes "\<not> isHunkHeader l"
  shows "\<exists>s'. step s l = Inr s' \<and>
    fileLineIndex s' = fileLineIndex s + (if isDeletion l then 0 else 1)"
proof (cases "isDeletion l")
  case True
  then show ?thesis by (simp add: step_on_deletion)
next
  case False
  show ?thesis
  proof (cases "isAddition l")
    case True
    with False show ?thesis by (simp add: step_on_addition)
  next
    case na: False
    with False assms show ?thesis by (simp add: step_on_context)
  qed
qed

lemma reduceLines_body_fileLine:
  assumes "\<forall>l \<in> set body. \<not> isHunkHeader l"
  shows "\<exists>t. reduceLines s body = Inr t \<and>
    fileLineIndex t = fileLineIndex s + int (length (filter (\<lambda>l. \<not> isDeletion l) body))"
  using assms
proof (induction body arbitrary: s)
  case Nil
  then show ?case by simp
next
  case (Cons l ls)
  then have "\<not> isHunkHeader l" by simp
  from step_file_nonheader [OF this, of s] obtain s1 where s1: "step s l = Inr s1"
    "fileLineIndex s1 = fileLineIndex s + (if isDeletion l then 0 else 1)" by blast
  from Cons.prems have "\<forall>l \<in> set ls. \<not> isHunkHeader l" by simp
  from Cons.IH [OF this, of s1] obtain t where "reduceLines s1 ls = Inr t"
    "fileLineIndex t = fileLineIndex s1 + int (length (filter (\<lambda>l. \<not> isDeletion l) ls))" by blast
  with s1 show ?case by simp
qed

lemma reduceLines_hunk_fileLine:
  assumes "\<forall>l \<in> set body. \<not> isHunkHeader l"
  shows "\<exists>t. reduceLines s ((spec_hunkHeader a b c d @ rest) # body) = Inr t \<and>
    fileLineIndex t = int c - 1 + int (length (filter (\<lambda>l. \<not> isDeletion l) body))"
  using reduceLines_body_fileLine [OF assms, of "s\<lparr>fileLineIndex := int c - 1\<rparr>"]
  by (simp add: step_header)

subsection \<open>What the keys are\<close>

text \<open>
  For every patch: each key of the returned map was written at an addition line (a line
  that starts with a plus sign and is not a header), the key is the value of the file
  line counter at that line and the value is the diff position of that line; a line
  that is not an addition leaves the map as it is. After a header written as the
  specification writes it and a run of lines of the hunk, the counter is
  \<open>newStart - 1\<close> plus the number of lines of the run that do not start with a minus
  sign.
\<close>

lemma lineMap_keys_are_additions:
  "(\<forall>p m k v. getLineMapFromPatchString (Some p) = Inr m \<and> m k = Some v \<longrightarrow>
      (\<exists>i < length (split_on newline p).
         isAddition (split_on newline p ! i) \<and>
         (\<exists>t. reduceLines initialState (take (Suc i) (split_on newline p)) = Inr t \<and>
              fileLineIndex t = k \<and> diffLineIndex t = v))) \<and>
   (\<forall>s l s'. step s l = Inr s' \<and> \<not> isAddition l \<longrightarrow> lineMap s' = lineMap s) \<and>
   (\<forall>s l. isAddition l \<longrightarrow>
      (\<exists>s'. step s l = Inr s' \<and> fileLineIndex s' = fileLineIndex s + 1 \<and>
            lineMap s' = (lineMap s)(fileLineIndex s' \<mapsto> diffLineIndex s'))) \<and>
   (\<forall>s oldStart oldCount newStart newCount rest body.
      (\<forall>l \<in> set body. \<not> isHunkHeader l) \<longrightarrow>
      (\<exists>t. reduceLines s ((spec_hunkHeader oldStart oldCount newStart newCount @ rest) # body) = Inr t \<and>
           fileLineIndex t = int newStart - 1 + int (length (filter (\<lambda>l. \<not> isDeletion l) body))))"
proof (intro conjI allI impI)
  fix p m k v
  assume a: "getLineMapFromPatchString (Some p) = Inr m \<and> m k = Some v"
  then obtain s where r: "reduceLines initialState (split_on newline p) = Inr s"
    and m: "m = lineMap s"
    by (auto simp: getLineMapFromPatchString_def split: sum.splits)
  with a have "lineMap s k = Some v" by simp
  from reduceLines_key_origin [OF r this]
  show "\<exists>i < length (split_on newline p).
         isAddition (split_on newline p ! i) \<and>
         (\<exists>t. reduceLines initialState (take (Suc i) (split_on newline p)) = Inr t \<and>
              fileLineIndex t = k \<and> diffLineIndex t = v)"
    by (simp add: initialState_def)
next
  fix s l s'
  assume "step s l = Inr s' \<and> \<not> isAddition l"
  then show "lineMap s' = lineMap s"
    using step_lineMap_other by blast
next
  fix s l
  assume "isAddition l"
  then show "\<exists>s'. step s l = Inr s' \<and> fileLineIndex s' = fileLineIndex s + 1 \<and>
            lineMap s' = (lineMap s)(fileLineIndex s' \<mapsto> diffLineIndex s')"
    by (simp add: step_on_addition)
next
  fix s oldStart oldCount newStart newCount rest body
  assume "\<forall>l \<in> set body. \<not> isHunkHeader l"
  then show "\<exists>t. reduceLines s ((spec_hunkHeader oldStart oldCount newStart newCount @ rest) # body) = Inr t \<and>
           fileLineIndex t = int newStart - 1 + int (length (filter (\<lambda>l. \<not> isDeletion l) body))"
    by (rule reduceLines_hunk_fileLine)
qed

text \<open>
  On a patch made only of lines of the format the specification describes, the keys are
  exactly the line numbers, in the file after the change, of the addition lines.
\<close>

lemma step_spec_format:
  assumes "step s l = Inr s'" and "spec_formatLine l"
  shows "dom (lineMap s') \<union> set (spec_additionLineNumbers (fileLineIndex s' + 1) ls) =
    dom (lineMap s) \<union> set (spec_additionLineNumbers (fileLineIndex s + 1) (l # ls))"
proof (cases "isHunkHeader l")
  case True
  with assms(1) obtain ds where "matchPlusDigits l = Some ds" "s' = s\<lparr>fileLineIndex := toNumber ds - 1\<rparr>"
    by (auto simp: step_on_header split: option.splits)
  with True show ?thesis by simp
next
  case False
  with assms(2) have "firstChar l \<in> {None, Some CHR ''+'', Some CHR ''-'', Some CHR '' ''}"
    by (simp add: spec_formatLine_def)
  with False assms(1) show ?thesis
    by (auto simp: step_def Let_def)
qed

lemma reduceLines_spec_format:
  assumes "reduceLines s ls = Inr s'" and "\<forall>l \<in> set ls. spec_formatLine l"
  shows "dom (lineMap s') =
    dom (lineMap s) \<union> set (spec_additionLineNumbers (fileLineIndex s + 1) ls)"
  using assms
proof (induction ls arbitrary: s)
  case Nil
  then show ?case by simp
next
  case (Cons l ls)
  then obtain s1 where s1: "step s l = Inr s1" and rest: "reduceLines s1 ls = Inr s'"
    by (auto split: sum.splits)
  from Cons.prems(2) have f: "spec_formatLine l" and fs: "\<forall>l \<in> set ls. spec_formatLine l"
    by simp_all
  from Cons.IH [OF rest fs] step_spec_format [OF s1 f, of ls] show ?case by simp
qed

lemma keys_on_spec_format:
  assumes "getLineMapFromPatchString (Some p) = Inr m"
    and "\<forall>l \<in> set (split_on newline p). spec_formatLine l"
  shows "dom m = set (spec_additionLineNumbers 1 (split_on newline p))"
proof -
  from assms(1) obtain s where r: "reduceLines initialState (split_on newline p) = Inr s"
    and m: "m = lineMap s"
    by (auto simp: getLineMapFromPatchString_def split: sum.splits)
  from reduceLines_spec_format [OF r assms(2)] m show ?thesis
    by (simp add: initialState_def)
qed

subsection \<open>Evaluation\<close>

lemmas model_defs = getLineMapFromPatchString_def newline_def initialState_def step_def
  isHunkHeader_def is_digit_def toNumber_def digit_val_def firstChar_def

section \<open>Claims about the patch line mapper\<close>

text \<open>
  Claim C1. The reduction keeps two counters. \<open>diffLineIndex\<close> starts at 0 for the whole
  patch, grows by one on every line that is not a hunk header and is left alone by a
  header, so that at the end it is the number of non-header lines. \<open>fileLineIndex\<close> is set
  at every header line to the number after the first plus sign minus one; on a header
  written as the specification writes it, that number is \<open>newStart\<close>. The lines are
  processed in sequence: reducing \<open>xs @ ys\<close> is reducing \<open>ys\<close> from the state reached
  after \<open>xs\<close>, so a later hunk starts from the counters the earlier ones left. A header
  line without a plus sign followed by a digit raises a TypeError.
\<close>

theorem buildLineMap_counters:
  "diffLineIndex initialState = 0 \<and> fileLineIndex initialState = 0 \<and>
   (\<forall>p. getLineMapFromPatchString (Some p) =
      (case reduceLines initialState (split_on newline p) of
         Inl e \<Rightarrow> Inl e | Inr s \<Rightarrow> Inr (lineMap s))) \<and>
   (\<forall>s l. isHunkHeader l \<longrightarrow>
      (case step s l of
         Inl e \<Rightarrow> matchPlusDigits l = None
       | Inr s' \<Rightarrow> \<exists>ds. matchPlusDigits l = Some ds \<and> s' = s\<lparr>fileLineIndex := toNumber ds - 1\<rparr>)) \<and>
   (\<forall>s oldStart oldCount newStart newCount rest.
      step s (spec_hunkHeader oldStart oldCount newStart newCount @ rest) =
        Inr (s\<lparr>fileLineIndex := int newStart - 1\<rparr>)) \<and>
   (\<forall>s l. \<not> isHunkHeader l \<longrightarrow>
      (\<exists>s'. step s l = Inr s' \<and> diffLineIndex s' = diffLineIndex s + 1)) \<and>
   (\<forall>s xs ys. reduceLines s (xs @ ys) =
      (case reduceLines s xs of Inl e \<Rightarrow> Inl e | Inr s' \<Rightarrow> reduceLines s' ys)) \<and>
   (\<forall>ls s. reduceLines initialState ls = Inr s \<longrightarrow>
      diffLineIndex s = int (length (filter (\<lambda>l. \<not> isHunkHeader l) ls)))"
proof (intro conjI allI impI)
  show "diffLineIndex initialState = 0" "fileLineIndex initialState = 0"
    by (simp_all add: initialState_def)
next
  fix p
  show "getLineMapFromPatchString (Some p) =
      (case reduceLines initialState (split_on newline p) of
         Inl e \<Rightarrow> Inl e | Inr s \<Rightarrow> Inr (lineMap s))"
    by (simp add: getLineMapFromPatchString_def)
next
  fix s l
  assume "isHunkHeader l"
  then show "case step s l of
         Inl e \<Rightarrow> matchPlusDigits l = None
       | Inr s' \<Rightarrow> \<exists>ds. matchPlusDigits l = Some ds \<and> s' = s\<lparr>fileLineIndex := toNumber ds - 1\<rparr>"
    by (simp add: step_on_header split: option.splits)
next
  fix s oldStart oldCount newStart newCount rest
  show "step s (spec_hunkHeader oldStart oldCount newStart newCount @ rest) =
        Inr (s\<lparr>fileLineIndex := int newStart - 1\<rparr>)"
    by (rule step_header)
next
  fix s l
  assume "\<not> isHunkHeader l"
  then show "\<exists>s'. step s l = Inr s' \<and> diffLineIndex s' = diffLineIndex s + 1"
    by (simp add: step_def Let_def)
next
  fix s xs ys
  show "reduceLines s (xs @ ys) =
      (case reduceLines s xs of Inl e \<Rightarrow> Inl e | Inr s' \<Rightarrow> reduceLines s' ys)"
    by (rule reduceLines_append)
next
  fix ls s
  assume "reduceLines initialState ls = Inr s"
  from reduceLines_diffLineIndex [OF this]
  show "diffLineIndex s = int (length (filter (\<lambda>l. \<not> isHunkHeader l) ls))"
    by (simp add: initialState_def)
qed

theorem buildLineMap_counters_witness:
  "isHunkHeader ''@@ -10,1 +11,2 @@'' \<and>
   step initialState ''@@ -10,1 +11,2 @@'' = Inr (initialState\<lparr>fileLineIndex := 10\<rparr>) \<and>
   \<not> isHunkHeader ''+y'' \<and>
   (\<exists>s'. step initialState ''+y'' = Inr s' \<and> diffLineIndex s' = 1) \<and>
   reduceLines initialState (split_on newline twoHunkPatch) =
     Inr \<lparr>diffLineIndex = 5, fileLineIndex = 12, lineMap = [2 \<mapsto> 2, 12 \<mapsto> 5]\<rparr> \<and>
   int (length (filter (\<lambda>l. \<not> isHunkHeader l) (split_on newline twoHunkPatch))) = 5"
proof -
  note c = buildLineMap_counters
  have h: "isHunkHeader ''@@ -10,1 +11,2 @@''" and n: "\<not> isHunkHeader ''+y''"
    by (simp_all add: isHunkHeader_def)
  have hdr: "spec_hunkHeader 10 1 11 2 @ [] = ''@@ -10,1 +11,2 @@''"
    by (simp add: spec_hunkHeader_def spec_decimal.simps spec_digitChar_def)
  from c have "step initialState (spec_hunkHeader 10 1 11 2 @ []) =
      Inr (initialState\<lparr>fileLineIndex := int 11 - 1\<rparr>)"
    by blast
  then have a: "step initialState ''@@ -10,1 +11,2 @@'' = Inr (initialState\<lparr>fileLineIndex := 10\<rparr>)"
    by (simp only: hdr) simp
  from c n have b: "\<exists>s'. step initialState ''+y'' = Inr s' \<and>
      diffLineIndex s' = diffLineIndex initialState + 1"
    by blast
  have r: "reduceLines initialState (split_on newline twoHunkPatch) =
      Inr \<lparr>diffLineIndex = 5, fileLineIndex = 12, lineMap = [2 \<mapsto> 2, 12 \<mapsto> 5]\<rparr>"
    by (simp add: twoHunkPatch_def model_defs)
  from c r have "diffLineIndex \<lparr>diffLineIndex = 5, fileLineIndex = 12, lineMap = [2 \<mapsto> 2, 12 \<mapsto> 5]\<rparr> =
      int (length (filter (\<lambda>l. \<not> isHunkHeader l) (split_on newline twoHunkPatch)))"
    by blast
  then have d: "int (length (filter (\<lambda>l. \<not> isHunkHeader l) (split_on newline twoHunkPatch))) = 5"
    by simp
  from h a n b r d show ?thesis
    by (simp add: initialState_def)
qed

text \<open>
  Claim C2, at a failing input: a patch with the marker \<^verbatim>\<open>\ No newline at end of file\<close>
  after a deletion. The reducer counts the marker as a line of the new file, so the two
  additions, lines 1 and 2 of the new file, get the keys 2 and 3: the key 3 is no line
  of the new file, and the key 2 carries the diff position of line 1.
\<close>

theorem marker_line_shifts_keys:
  "getLineMapFromPatchString (Some markerPatch) = Inr [2 \<mapsto> 3, 3 \<mapsto> 4] \<and>
   spec_additionLineNumbers 1 (split_on newline markerPatch) = [1, 2] \<and>
   3 \<notin> set (spec_additionLineNumbers 1 (split_on newline markerPatch))"
proof -
  have a: "getLineMapFromPatchString (Some markerPatch) = Inr [2 \<mapsto> 3, 3 \<mapsto> 4]"
    by (simp add: markerPatch_def model_defs)
  have b: "spec_additionLineNumbers 1 (split_on newline markerPatch) = [1, 2]"
    by (simp add: markerPatch_def model_defs)
  from a b show ?thesis by simp
qed

text \<open>
  Claim C3. The two worked examples: the patch of scenario A gives the map \<open>{2: 2}\<close> and
  the patch of scenario B gives the map \<open>{1: 2}\<close>.
\<close>

theorem worked_examples:
  "getLineMapFromPatchString (Some scenarioA) = Inr [2 \<mapsto> 2] \<and>
   getLineMapFromPatchString (Some scenarioB) = Inr [1 \<mapsto> 2]"
  by (simp add: scenarioA_def scenarioB_def model_defs)

text \<open>
  Claim C4, as stated, asks for the empty map on the empty string and on an absent patch
  alike. On an absent patch the function returns no map.
\<close>

theorem absent_patch_counterexample:
  "getLineMapFromPatchString None \<noteq> Inr Map.empty"
  by (simp add: getLineMapFromPatchString_def)

text \<open>
  Claim C4, amended. On the empty string the function returns the empty map and raises
  nothing. Its parameter is a string: on an absent patch the call of \<^verbatim>\<open>split\<close> raises
  a TypeError.
\<close>

theorem empty_patch_empty_map:
  "getLineMapFromPatchString (Some []) = Inr Map.empty \<and>
   getLineMapFromPatchString None = Inl TypeError"
  by (simp add: model_defs)

text \<open>The truthiness test of \<^verbatim>\<open>sendSingleComment\<close>.\<close>

lemma sendSingleComment_nonempty:
  "(sendSingleComment num fname lmap fd commitSha \<noteq> []) =
     (\<exists>v. lmap (line fd) = Some v \<and> v \<noteq> 0)"
  by (simp add: sendSingleComment_def split: option.splits)

text \<open>
  Claim C9. Every value stored in the map returned for a patch is at least 1. So the
  truthiness test of \<^verbatim>\<open>sendSingleComment\<close> is a membership test: a comment is submitted
  exactly when the line of the finding is a key of the map; a finding on a mapped line
  yields one comment, at the mapped position, and a finding on an unmapped line yields
  none.
\<close>

theorem lineMap_values_positive:
  assumes "getLineMapFromPatchString p = Inr m"
  shows "(\<forall>k v. m k = Some v \<longrightarrow> 1 \<le> v) \<and>
    (\<forall>num fname fd commitSha.
       (sendSingleComment num fname m fd commitSha \<noteq> []) = (line fd \<in> dom m)) \<and>
    (\<forall>num fname fd commitSha v. m (line fd) = Some v \<longrightarrow>
       sendSingleComment num fname m fd commitSha =
         [CreateComment \<lparr>comment_number = num, comment_sha = commitSha,
            comment_path = fname, comment_commit_id = commitSha,
            comment_body = commentBody fd, comment_position = v\<rparr>]) \<and>
    (\<forall>num fname fd commitSha. m (line fd) = None \<longrightarrow>
       sendSingleComment num fname m fd commitSha = [])"
proof -
  have pos: "\<forall>k v. m k = Some v \<longrightarrow> 1 \<le> v"
    using getLineMap_values [OF assms] by blast
  have nz: "\<And>k v. m k = Some v \<Longrightarrow> v \<noteq> 0"
    using pos by fastforce
  have mem: "\<forall>num fname fd commitSha.
       (sendSingleComment num fname m fd commitSha \<noteq> []) = (line fd \<in> dom m)"
    using nz by (auto simp: sendSingleComment_nonempty dom_def)
  have present: "\<forall>num fname fd commitSha v. m (line fd) = Some v \<longrightarrow>
       sendSingleComment num fname m fd commitSha =
         [CreateComment \<lparr>comment_number = num, comment_sha = commitSha,
            comment_path = fname, comment_commit_id = commitSha,
            comment_body = commentBody fd, comment_position = v\<rparr>]"
    using nz by (simp add: sendSingleComment_def)
  have absent: "\<forall>num fname fd commitSha. m (line fd) = None \<longrightarrow>
       sendSingleComment num fname m fd commitSha = []"
    by (simp add: sendSingleComment_def)
  from pos mem present absent show ?thesis by blast
qed

theorem lineMap_values_positive_witness:
  "getLineMapFromPatchString (Some scenarioB) = Inr [1 \<mapsto> 2] \<and>
   (1::int) \<le> 2 \<and>
   sendSingleComment 7 ''a.js'' [1 \<mapsto> 2] exampleFinding ''c1'' \<noteq> [] \<and>
   line exampleFinding \<in> dom [1 \<mapsto> 2 :: int] \<and>
   sendSingleComment 7 ''a.js'' [1 \<mapsto> 2] (exampleFinding\<lparr>line := 3\<rparr>) ''c1'' = []"
proof -
  have e: "getLineMapFromPatchString (Some scenarioB) = Inr [1 \<mapsto> 2]"
    by (simp add: scenarioB_def model_defs)
  note t = lineMap_values_positive [OF e]
  have l: "line exampleFinding \<in> dom [1 \<mapsto> 2 :: int]"
    by (simp add: exampleFinding_def)
  with t have a: "sendSingleComment 7 ''a.js'' [1 \<mapsto> 2] exampleFinding ''c1'' \<noteq> []"
    by blast
  have "[1 \<mapsto> 2 :: int] (line (exampleFinding\<lparr>line := 3\<rparr>)) = None"
    by simp
  with t have b: "sendSingleComment 7 ''a.js'' [1 \<mapsto> 2] (exampleFinding\<lparr>line := 3\<rparr>) ''c1'' = []"
    by blast
  from e l a b show ?thesis by simp
qed

text \<open>
  Claim C10. The map returned for a patch is injective on its keys. The reason is the
  one the claim gives: an addition line records the diff position it has just
  incremented, which is larger than every value recorded before it in the pass.
\<close>

theorem lineMap_injective:
  "(\<forall>p m. getLineMapFromPatchString p = Inr m \<longrightarrow> inj_on m (dom m)) \<and>
   (\<forall>ls s l s'. reduceLines initialState ls = Inr s \<and> isAddition l \<and> step s l = Inr s' \<longrightarrow>
      lineMap s' (fileLineIndex s') = Some (diffLineIndex s') \<and>
      (\<forall>k v. lineMap s k = Some v \<longrightarrow> v < diffLineIndex s'))"
proof (intro conjI allI impI)
  fix p m
  assume "getLineMapFromPatchString p = Inr m"
  then show "inj_on m (dom m)" by (rule getLineMap_inj)
next
  fix ls s l s'
  assume a: "reduceLines initialState ls = Inr s \<and> isAddition l \<and> step s l = Inr s'"
  then show "lineMap s' (fileLineIndex s') = Some (diffLineIndex s')"
    by (auto simp: step_on_addition)
next
  fix ls s l s' k v
  assume a: "reduceLines initialState ls = Inr s \<and> isAddition l \<and> step s l = Inr s'"
    and kv: "lineMap s k = Some v"
  from a have r: "reduceLines initialState ls = Inr s" by simp
  have "\<forall>k v. lineMap s k = Some v \<longrightarrow> 1 \<le> v \<and> v \<le> diffLineIndex s"
    using reduceLines_values [OF r] by (simp add: initialState_def)
  with kv have "v \<le> diffLineIndex s" by blast
  moreover from a have "diffLineIndex s' = diffLineIndex s + 1"
    by (auto simp: step_on_addition)
  ultimately show "v < diffLineIndex s'" by simp
qed

theorem lineMap_injective_witness:
  "getLineMapFromPatchString (Some twoAdditionsPatch) = Inr [2 \<mapsto> 2, 3 \<mapsto> 3] \<and>
   inj_on ([2 \<mapsto> 2, 3 \<mapsto> 3] :: int \<rightharpoonup> int) (dom ([2 \<mapsto> 2, 3 \<mapsto> 3] :: int \<rightharpoonup> int))"
proof -
  have e: "getLineMapFromPatchString (Some twoAdditionsPatch) = Inr [2 \<mapsto> 2, 3 \<mapsto> 3]"
    by (simp add: twoAdditionsPatch_def model_defs)
  with lineMap_injective show ?thesis by blast
qed


section \<open>Claims about the pipeline\<close>

subsection \<open>Callbacks that raise\<close>

lemma js_error_TypeError: "(err :: js_error) = TypeError"
  by (cases err) simp

lemma runEach_fails:
  assumes "x \<in> set xs" and "isl (snd (h x))"
  shows "isl (snd (runEach h xs))"
  using assms
proof (induction xs)
  case Nil
  then show ?case by simp
next
  case (Cons y ys)
  show ?case
  proof (cases "isl (snd (h y))")
    case True
    then show ?thesis
      by (cases "h y") (auto split: sum.splits)
  next
    case False
    with Cons.prems have "x \<in> set ys" by auto
    from Cons.IH [OF this Cons.prems(2)] show ?thesis
      by (cases "h y"; cases "runEach h ys") (auto split: sum.splits)
  qed
qed

lemma runEach_effects:
  assumes "\<forall>x \<in> set xs. \<forall>ef \<in> set (fst (h x)). P ef"
  shows "\<forall>ef \<in> set (fst (runEach h xs)). P ef"
  using assms
proof (induction xs)
  case Nil
  then show ?case by simp
next
  case (Cons y ys)
  then have "\<forall>ef \<in> set (fst (h y)). P ef" and "\<forall>ef \<in> set (fst (runEach h ys)). P ef"
    by simp_all
  then show ?case
    by (cases "h y"; cases "runEach h ys") (auto split: sum.splits)
qed

lemma onCommit_effects:
  "\<forall>ef \<in> set (fst (onCommit e pr c r)). \<not> isConsoleLog ef \<and> \<not> isCreateComment ef"
  by (cases r) (auto simp: onCommit_def Let_def)

lemma commits_failure_general:
  assumes "getCommitsResponse e (number pr) = Failure err"
  shows "handlePost e (Some \<lparr>pull_request = Some pr\<rparr>) =
     \<lparr>trace = [GetCommits (number pr), ResponseEnd, ConsoleLog err], uncaught = Some TypeError\<rparr>"
  using assms by (simp add: handlePost_def treatPayload_def onCommits_def)

lemma files_failure_general:
  assumes "getCommitsResponse e (number pr) = Success commits"
    and "c \<in> set commits" and "getCommitResponse e (sha c) = Failure err"
  shows "uncaught (handlePost e (Some \<lparr>pull_request = Some pr\<rparr>)) = Some TypeError \<and>
    filter isConsoleLog (trace (handlePost e (Some \<lparr>pull_request = Some pr\<rparr>))) = [] \<and>
    filter isCreateComment (trace (handlePost e (Some \<lparr>pull_request = Some pr\<rparr>))) = []"
proof -
  let ?h = "\<lambda>c. onCommit e pr c (getCommitResponse e (sha c))"
  have "isl (snd (?h c))"
    using assms(3) by (simp add: onCommit_def)
  from runEach_fails [OF assms(2), of ?h, OF this]
  obtain es where r: "runEach ?h commits = (es, Inl TypeError)"
    by (cases "runEach ?h commits") (auto simp: isl_def js_error_TypeError)
  have "\<forall>ef \<in> set (fst (runEach ?h commits)). \<not> isConsoleLog ef \<and> \<not> isCreateComment ef"
    by (rule runEach_effects) (simp add: onCommit_effects)
  with r have es: "filter isConsoleLog es = []" "filter isCreateComment es = []"
    by (simp_all add: filter_empty_conv)
  have t: "treatPayload e pr = (map (\<lambda>c. GetCommit (sha c)) commits @ es, Inl TypeError)"
    using assms(1) r by (simp add: treatPayload_def onCommits_def)
  have m: "filter isConsoleLog (map (\<lambda>c. GetCommit (sha c)) commits) = []"
    "filter isCreateComment (map (\<lambda>c. GetCommit (sha c)) commits) = []"
    by (simp_all add: filter_empty_conv)
  show ?thesis
    using es m by (simp add: handlePost_def t)
qed

subsection \<open>Evaluation of the examples\<close>

lemmas pipeline_defs = handlePost_def treatPayload_def onCommits_def onCommit_def onContent_def
  lintContent_def sendComments_def sendSingleComment_def commentBody_def
  filterJavascriptFiles_def exampleEnv_def exampleFile_def exampleFinding_def exampleEvent_def
  scenarioB_def

text \<open>
  Claim C5, at a failing input: the pull request 7 when the listing of its commits fails.
  The error is logged and no comment is submitted, but the callback is called with no
  commits, and \<^verbatim>\<open>commits.map\<close> raises a TypeError that nothing catches.
\<close>

theorem commit_listing_failure_uncaught:
  "handlePost commitsFailEnv (Some exampleEvent) =
     \<lparr>trace = [GetCommits 7, ResponseEnd, ConsoleLog ''down''], uncaught = Some TypeError\<rparr>"
  by (simp add: commitsFailEnv_def pipeline_defs)

text \<open>
  Claim C6, at a failing input: the pull request 7 of two commits, when the listing of
  the files fails for the first. Nothing is logged and a TypeError is raised that
  nothing catches; the run ends without a comment for the second commit, which gets one
  when both listings succeed.
\<close>

theorem file_listing_failure_uncaught:
  "handlePost filesFailEnv (Some exampleEvent) =
     \<lparr>trace = [GetCommits 7, ResponseEnd, GetCommit ''c1'', GetCommit ''c2''],
      uncaught = Some TypeError\<rparr> \<and>
   filter isConsoleLog (trace (handlePost filesFailEnv (Some exampleEvent))) = [] \<and>
   filter isCreateComment (trace (handlePost filesFailEnv (Some exampleEvent))) = [] \<and>
   filter isCreateComment (trace (handlePost exampleEnv (Some exampleEvent))) =
     [CreateComment \<lparr>comment_number = 7, comment_sha = ''c1'', comment_path = ''a.js'',
        comment_commit_id = ''c1'', comment_body = ''**Eslint**: bad'', comment_position = 2\<rparr>,
      CreateComment \<lparr>comment_number = 7, comment_sha = ''c2'', comment_path = ''a.js'',
        comment_commit_id = ''c2'', comment_body = ''**Eslint**: bad'', comment_position = 2\<rparr>]"
  by (simp add: filesFailEnv_def pipeline_defs model_defs)

text \<open>
  Claim C7. When the request has no body, or a body without a pull request, the handler
  makes no call to the hosting client, and ends the response.
\<close>

theorem no_pull_request_no_calls:
  assumes "body = None \<or> (\<exists>b. body = Some b \<and> pull_request b = None)"
  shows "handlePost e body = \<lparr>trace = [ResponseEnd], uncaught = None\<rparr> \<and>
    filter isClientCall (trace (handlePost e body)) = []"
  using assms by (auto simp: handlePost_def)

theorem no_pull_request_no_calls_witness:
  "handlePost exampleEnv None = \<lparr>trace = [ResponseEnd], uncaught = None\<rparr> \<and>
   handlePost exampleEnv (Some \<lparr>pull_request = None\<rparr>) = \<lparr>trace = [ResponseEnd], uncaught = None\<rparr> \<and>
   filter isClientCall (trace (handlePost exampleEnv (Some exampleEvent))) \<noteq> []"
proof -
  have a: "handlePost exampleEnv None = \<lparr>trace = [ResponseEnd], uncaught = None\<rparr>"
    using no_pull_request_no_calls [of None exampleEnv] by simp
  have b: "handlePost exampleEnv (Some \<lparr>pull_request = None\<rparr>) =
      \<lparr>trace = [ResponseEnd], uncaught = None\<rparr>"
    using no_pull_request_no_calls [of "Some \<lparr>pull_request = None\<rparr>" exampleEnv] by simp
  have c: "filter isClientCall (trace (handlePost exampleEnv (Some exampleEvent))) \<noteq> []"
    by (simp add: handlePost_def exampleEvent_def split: prod.splits sum.splits)
  from a b c show ?thesis by simp
qed

text \<open>
  Claim C8. The file filter returns a subsequence of its input, in the order of the
  input; the name of every file it returns matches the pattern, no file whose name fails
  the pattern is returned, and every file whose name matches is kept.
\<close>

theorem filterJavascriptFiles_order_preserving:
  "subseq (filterJavascriptFiles fileFilter files) files \<and>
   (\<forall>f \<in> set (filterJavascriptFiles fileFilter files). fileFilter (filename f)) \<and>
   (\<forall>f \<in> set files. \<not> fileFilter (filename f) \<longrightarrow>
      f \<notin> set (filterJavascriptFiles fileFilter files)) \<and>
   (\<forall>f \<in> set files. fileFilter (filename f) \<longrightarrow>
      f \<in> set (filterJavascriptFiles fileFilter files))"
  by (simp add: filterJavascriptFiles_def)

theorem filterJavascriptFiles_order_preserving_witness:
  "filterJavascriptFiles endsWithJs [otherFile, exampleFile, otherFile, exampleFile] =
     [exampleFile, exampleFile] \<and>
   subseq [exampleFile, exampleFile] [otherFile, exampleFile, otherFile, exampleFile] \<and>
   endsWithJs (filename exampleFile) \<and>
   \<not> endsWithJs (filename otherFile) \<and>
   otherFile \<notin> set (filterJavascriptFiles endsWithJs [otherFile, exampleFile, otherFile, exampleFile])"
proof -
  have e: "filterJavascriptFiles endsWithJs [otherFile, exampleFile, otherFile, exampleFile] =
     [exampleFile, exampleFile]"
    by (simp add: filterJavascriptFiles_def endsWithJs_def exampleFile_def otherFile_def)
  have y: "endsWithJs (filename exampleFile)" and n: "\<not> endsWithJs (filename otherFile)"
    by (simp_all add: endsWithJs_def exampleFile_def otherFile_def)
  note t = filterJavascriptFiles_order_preserving
    [of endsWithJs "[otherFile, exampleFile, otherFile, exampleFile]"]
  from t have s: "subseq (filterJavascriptFiles endsWithJs [otherFile, exampleFile, otherFile, exampleFile])
     [otherFile, exampleFile, otherFile, exampleFile]" by blast
  from t n have o: "otherFile \<notin> set (filterJavascriptFiles endsWithJs [otherFile, exampleFile, otherFile, exampleFile])"
    by simp
  from e y n s o show ?thesis by simp
qed

end
